theory Spec2Isabelle
  imports Main
begin

chapter \<open>The model of the program\<close>

section \<open>Errors raised by the program\<close>

text \<open>
  The exceptions of \<^verbatim>\<open>nndownload.py\<close> that the modelled functions can raise, with the
  message where the program builds one. \<open>HTTPError\<close> is what \<^verbatim>\<open>raise_for_status()\<close>
  raises; \<open>IndexError\<close>, \<open>StopIteration\<close>, \<open>OSError\<close> and \<open>ZeroDivisionError\<close> are
  raised by Python itself (an index into an empty list, \<^verbatim>\<open>next\<close> on an exhausted
  iterator, a seek to a negative position or a missing file, a division by zero).
\<close>

datatype error =
    FormatNotAvailableException string
  | ArgumentException string
  | HTTPError
  | IndexError
  | StopIteration
  | OSError
  | ZeroDivisionError

section \<open>Command-line options\<close>

text \<open>
  The fields of the global \<^verbatim>\<open>cmdl_opts\<close> that the modelled functions read.
  \<open>threads\<close> is the \<^verbatim>\<open>--threads\<close> option as the integer \<^verbatim>\<open>int(cmdl_opts.threads)\<close>
  gives, \<open>None\<close> when the option is not given (an empty or non-numeric argument is
  outside the model). \<open>force_high_quality\<close> is the \<^verbatim>\<open>--force-high-quality\<close> flag.
\<close>

record cmdl_opts =
  threads :: "int option"
  force_high_quality :: bool

section \<open>Python strings\<close>

text \<open>
  Strings are lists of the code points 0 to 255. \<^verbatim>\<open>str.lower()\<close> on these code points
  maps \<open>A\<close> to \<open>Z\<close> and the capital letters \<open>0xC0\<close> to \<open>0xDE\<close> (not the
  multiplication sign \<open>0xD7\<close>) to the code point 32 above and leaves every other one.
\<close>

definition lower_char :: "char \<Rightarrow> char" where
  "lower_char c =
     (let n = (of_char c :: nat) in
      if (65 \<le> n \<and> n \<le> 90) \<or> (192 \<le> n \<and> n \<le> 222 \<and> n \<noteq> 215)
      then char_of (n + 32) else c)"

definition lower :: "string \<Rightarrow> string" where
  "lower s = map lower_char s"

text \<open>
  \<^verbatim>\<open>repr\<close> of a string, which the f-string applies to each element when it formats the
  list \<^verbatim>\<open>sources\<close>: single quotes unless the string has a single quote and no double
  quote; the quote and the backslash escaped; tab, newline and carriage return as
  \<^verbatim>\<open>\t\<close>, \<^verbatim>\<open>\n\<close>, \<^verbatim>\<open>\r\<close>; every other non-printable code point as \<^verbatim>\<open>\xNN\<close>.
\<close>

definition hex_digit :: "nat \<Rightarrow> char" where
  "hex_digit n = (if n < 10 then char_of (48 + n) else char_of (87 + n))"

definition py_printable :: "char \<Rightarrow> bool" where
  "py_printable c =
     (let n = (of_char c :: nat) in (32 \<le> n \<and> n < 127) \<or> (161 \<le> n \<and> n \<noteq> 173))"

definition py_repr_char :: "char \<Rightarrow> char \<Rightarrow> string" where
  "py_repr_char quote c =
     (if c = quote \<or> c = CHR 0x5C then [CHR 0x5C, c]
      else if c = CHR 0x09 then [CHR 0x5C, CHR ''t'']
      else if c = CHR 0x0A then [CHR 0x5C, CHR ''n'']
      else if c = CHR 0x0D then [CHR 0x5C, CHR ''r'']
      else if py_printable c then [c]
      else [CHR 0x5C, CHR ''x'', hex_digit (of_char c div 16), hex_digit (of_char c mod 16)])"

definition py_repr_str :: "string \<Rightarrow> string" where
  "py_repr_str s =
     (let quote = (if CHR 0x27 \<in> set s \<and> CHR 0x22 \<notin> set s then CHR 0x22 else CHR 0x27)
      in [quote] @ concat (map (py_repr_char quote) s) @ [quote])"

fun py_join :: "string \<Rightarrow> string list \<Rightarrow> string" where
  "py_join sep [] = []"
| "py_join sep [x] = x"
| "py_join sep (x # y # ys) = x @ sep @ py_join sep (y # ys)"

definition py_repr_list :: "string list \<Rightarrow> string" where
  "py_repr_list xs = ''['' @ py_join '', '' (map py_repr_str xs) @ '']''"

section \<open>Quality selection: \<^verbatim>\<open>select_dmc_quality\<close>\<close>

text \<open>
  \<^verbatim>\<open>template_params\<close> is a dictionary from keys to strings. The function stores the
  selected source under \<^verbatim>\<open>template_key\<close> and returns a slice of \<^verbatim>\<open>sources\<close>; the
  model returns the updated dictionary, the returned slice and the lines given to
  \<^verbatim>\<open>output\<close>. \<open>select_slice\<close> is the pair of statements
  \<^verbatim>\<open>template_params[template_key] = selected[0]; return selected\<close>, where the index raises
  \<open>IndexError\<close> on an empty slice. \<open>truthy\<close> is Python's truth value of the
  \<^verbatim>\<open>quality\<close> argument: \<open>None\<close> and the empty string are false.
\<close>

type_synonym template_params = "string \<rightharpoonup> string"

definition truthy :: "string option \<Rightarrow> bool" where
  "truthy quality = (case quality of None \<Rightarrow> False | Some q \<Rightarrow> q \<noteq> [])"

definition select_slice ::
  "template_params \<Rightarrow> string \<Rightarrow> string list \<Rightarrow> string list
     \<Rightarrow> error + (template_params \<times> string list \<times> string list)" where
  "select_slice template_params template_key selected out =
     (case selected of
        [] \<Rightarrow> Inl IndexError
      | x # _ \<Rightarrow> Inr (template_params(template_key \<mapsto> x), selected, out))"

definition last_slice :: "'a list \<Rightarrow> 'a list" where
  \<comment> \<open>\<^verbatim>\<open>sources[-1:]\<close>\<close>
  "last_slice xs = (if xs = [] then [] else [last xs])"

definition force_warning :: string where
  "force_warning =
     ''Video or audio quality specified with --force-high-quality. Ignoring quality...''
       @ [CHR 0x0A]"

definition quality_message :: "string \<Rightarrow> string list \<Rightarrow> string" where
  "quality_message quality sources =
     ''Quality '' @ [CHR 0x27] @ quality @ [CHR 0x27]
       @ '' is not available. Available qualities: '' @ py_repr_list sources"

fun select_dmc_quality ::
  "cmdl_opts \<Rightarrow> template_params \<Rightarrow> string \<Rightarrow> string list \<Rightarrow> string option
     \<Rightarrow> error + (template_params \<times> string list \<times> string list)" where
  "select_dmc_quality opts template_params template_key sources None =
     select_slice template_params template_key (take 1 sources) []"
| "select_dmc_quality opts template_params template_key sources (Some quality) =
     (let out = (if quality \<noteq> [] \<and> force_high_quality opts then [force_warning] else [])
      in
      if quality = [] \<or> force_high_quality opts \<or> lower quality = ''highest''
      then select_slice template_params template_key (take 1 sources) out
      else if lower quality = ''lowest''
      then select_slice template_params template_key (last_slice sources) out
      else
        (let filtered = filter (\<lambda>q. lower q = lower quality) sources in
         if filtered = []
         then Inl (FormatNotAvailableException (quality_message quality sources))
         else select_slice template_params template_key (take 1 filtered) out))"

section \<open>The transfer engine: \<^verbatim>\<open>download_video\<close>\<close>

subsection \<open>The world the transfer runs in\<close>

text \<open>
  A \<^verbatim>\<open>bytes\<close> object is a list of bytes. The model follows one destination file
  (\<^verbatim>\<open>filename\<close>): its contents, or \<open>None\<close> when \<^verbatim>\<open>os.path.isfile\<close> is false. It also
  keeps the requests sent through \<^verbatim>\<open>session\<close>, oldest first, and the global counter
  \<^verbatim>\<open>progress\<close>. Console output is not modelled.

  The progress thread of the multi-threaded path runs beside the workers and reads the
  counter at moments the scheduler chooses. \<open>trace\<close> logs every value the counter takes
  after it is reset, oldest first. \<open>polls\<close> is the scheduler's choice, an input: its
  \<open>k\<close>-th entry says whether the progress thread reads the counter while it has its
  \<open>k\<close>-th value; values beyond the end of \<open>polls\<close> are not read while the workers run.

  A request is a \<^verbatim>\<open>session.head\<close> or a \<^verbatim>\<open>session.get\<close> with a \<^verbatim>\<open>Range\<close> header, either
  \<^verbatim>\<open>bytes={0}-\<close> (\<open>RangeFrom\<close>) or \<^verbatim>\<open>bytes={0}-{1}\<close> (\<open>RangeTo\<close>). The numbers are the
  integers the program formats into the header; the program does not clamp them.
\<close>

type_synonym bytes = "char list"

datatype range_header = RangeFrom int | RangeTo int int

datatype request = Head | Get range_header

record world =
  local_file :: "bytes option"
  requests :: "request list"
  progress :: int
  trace :: "int list"
  polls :: "bool list"

definition sent :: "request \<Rightarrow> world \<Rightarrow> world" where
  "sent rq w = w\<lparr>requests := requests w @ [rq]\<rparr>"

text \<open>
  The remote side is a parameter of the model: the \<^verbatim>\<open>content-length\<close> a \<^verbatim>\<open>HEAD\<close>
  answers with and the body a ranged \<^verbatim>\<open>GET\<close> answers with, \<open>None\<close> standing for a
  status on which \<^verbatim>\<open>raise_for_status()\<close> raises.
\<close>

record server =
  head_response :: "nat option"
  get_response :: "range_header \<Rightarrow> bytes option"

text \<open>
  How a call ends: it returns, it raises, or it never returns (the main thread joins a
  progress thread that loops forever). The main thread returns from the join whether
  the progress thread ended normally or by an exception.
\<close>

datatype outcome = Returned | Raised error | Hangs

definition BLOCK_SIZE :: nat where
  "BLOCK_SIZE = 1024"

text \<open>
  \<^verbatim>\<open>iter_content(chunk_size)\<close> of the library cuts the body into blocks of
  \<^verbatim>\<open>chunk_size\<close> bytes, the last one shorter when the body does not divide evenly.
\<close>

function iter_content :: "nat \<Rightarrow> bytes \<Rightarrow> bytes list" where
  "iter_content chunk_size body =
     (if body = [] \<or> chunk_size = 0 then []
      else take chunk_size body # iter_content chunk_size (drop chunk_size body))"
  by pat_completeness auto
termination
  by (relation "measure (\<lambda>(chunk_size, body). length body)") auto

declare iter_content.simps [simp del]

subsection \<open>The multi-threaded path\<close>

text \<open>
  \<^verbatim>\<open>update_multithread_progress\<close> run without interference from another thread: the
  lock it creates is its own, so acquiring and releasing it changes nothing, and the
  counter grows by \<^verbatim>\<open>bytes_len\<close>; the new value is logged in \<open>trace\<close>. The section on the
  progress counter below models the same function step by step under interleaving.
\<close>

definition update_multithread_progress :: "int \<Rightarrow> world \<Rightarrow> world" where
  "update_multithread_progress bytes_len w =
     w\<lparr>progress := progress w + bytes_len, trace := trace w @ [progress w + bytes_len]\<rparr>"

text \<open>
  A write of \<^verbatim>\<open>block\<close> at position \<^verbatim>\<open>pos\<close> of a file opened \<^verbatim>\<open>r+b\<close>: the bytes
  overwrite what is there and extend the file, a gap before \<^verbatim>\<open>pos\<close> being zero bytes.
\<close>

definition write_at :: "bytes \<Rightarrow> nat \<Rightarrow> bytes \<Rightarrow> bytes" where
  "write_at f pos block =
     take pos f @ replicate (pos - length f) (CHR 0x00) @ block @ drop (pos + length block) f"

text \<open>The loop of \<^verbatim>\<open>download_video_part\<close> over the blocks of the stream.\<close>

fun write_part_blocks :: "bytes list \<Rightarrow> nat \<Rightarrow> bytes \<Rightarrow> world \<Rightarrow> world" where
  "write_part_blocks [] current_pos f w = w\<lparr>local_file := Some f\<rparr>"
| "write_part_blocks (block # blocks) current_pos f w =
     write_part_blocks blocks (current_pos + length block) (write_at f current_pos block)
       (update_multithread_progress (int (length block)) w)"

text \<open>
  \<^verbatim>\<open>download_video_part(start, end, filename, session, url)\<close>. Opening a missing file
  \<^verbatim>\<open>r+b\<close> and seeking to a negative position raise \<open>OSError\<close>. The last statement is
  \<^verbatim>\<open>update_multithread_progress(-1)\<close>, commented \<^verbatim>\<open>NUL byte at end of each part\<close>.
\<close>

definition download_video_part :: "server \<Rightarrow> int \<Rightarrow> int \<Rightarrow> world \<Rightarrow> outcome \<times> world" where
  "download_video_part srv start end w =
     (let w1 = sent (Get (RangeTo start end)) w in
      case get_response srv (RangeTo start end) of
        None \<Rightarrow> (Raised HTTPError, w1)
      | Some body \<Rightarrow>
          (case local_file w1 of
             None \<Rightarrow> (Raised OSError, w1)
           | Some f \<Rightarrow>
               if start < 0 then (Raised OSError, w1)
               else
                 (Returned,
                  update_multithread_progress (- 1)
                    (write_part_blocks (iter_content BLOCK_SIZE body) (nat start) f w1))))"

text \<open>
  The ranges of lines 788 to 795: \<^verbatim>\<open>part = math.ceil(video_len / threads)\<close>, and for
  each \<^verbatim>\<open>i\<close> in \<^verbatim>\<open>range(threads)\<close> the pair \<^verbatim>\<open>start = part * i\<close>,
  \<^verbatim>\<open>end = video_len if i == threads - 1 else start + part\<close>. The ceiling of the float
  quotient is the integer ceiling for every length below \<open>2 ^ 53\<close>, which is what the
  model computes.
\<close>

definition ceil_div :: "int \<Rightarrow> int \<Rightarrow> int" where
  "ceil_div a b = - ((- a) div b)"

definition partitions :: "int \<Rightarrow> int \<Rightarrow> (int \<times> int) list" where
  "partitions video_len thread_count =
     (let part = ceil_div video_len thread_count in
      map (\<lambda>i. let start = part * i;
                    end = (if i = thread_count - 1 then video_len else start + part)
                in (start, end))
          (map int [0..<nat thread_count]))"

text \<open>
  The workers are started in the order of the ranges; the model runs each to its end
  before the next. An exception in a worker ends that thread only.
\<close>

fun run_parts :: "server \<Rightarrow> (int \<times> int) list \<Rightarrow> world \<Rightarrow> world" where
  "run_parts srv [] w = w"
| "run_parts srv ((start, end) # ranges) w =
     run_parts srv ranges (snd (download_video_part srv start end w))"

text \<open>
  The values of the counter that the progress thread reads while the workers run: those
  values of the trace that the scheduler's choices select.
\<close>

definition polled :: "bool list \<Rightarrow> int list \<Rightarrow> int list" where
  "polled choices values = map snd (filter fst (zip choices values))"

text \<open>
  \<^verbatim>\<open>show_multithread_progress(video_len)\<close> from the moment the workers have ended and the
  counter no longer changes; \<open>finished\<close> is what the loop has set so far. Each round of
  the loop sets \<^verbatim>\<open>finished\<close> when it sees \<^verbatim>\<open>progress >= video_len\<close> and then divides
  by \<^verbatim>\<open>video_len\<close> for the progress line, which raises when \<^verbatim>\<open>video_len\<close> is 0 and
  ends the thread. The loop that never sees the counter at or above \<^verbatim>\<open>video_len\<close>
  runs forever (the value \<open>None\<close>). The text of the progress line is not modelled.
\<close>

partial_function (option) show_multithread_progress :: "int \<Rightarrow> int \<Rightarrow> bool \<Rightarrow> outcome option" where
  "show_multithread_progress video_len progress_now finished =
     (if finished then Some Returned
      else if video_len = 0 then Some (Raised ZeroDivisionError)
      else show_multithread_progress video_len progress_now (progress_now \<ge> video_len))"

subsection \<open>\<^verbatim>\<open>download_video\<close>\<close>

definition length_message :: string where
  "length_message =
     ''Current byte position exceeds the length of the video to be downloaded. ''
     @ ''Check the interity of the existing file and use --force-high-quality to resume ''
     @ ''this download when the high quality source is available.'' @ [CHR 0x0A]"

text \<open>
  The writing loop of the single-stream path, lines 867 to 873, on a file opened
  \<^verbatim>\<open>ab\<close> or newly created with \<^verbatim>\<open>wb\<close>: every block is appended, and after each
  write the progress line divides by \<^verbatim>\<open>video_len\<close>, which raises when
  \<^verbatim>\<open>video_len\<close> is 0. The result is how the loop ends and the bytes of the file.
\<close>

fun write_blocks :: "nat \<Rightarrow> bytes \<Rightarrow> bytes list \<Rightarrow> outcome \<times> bytes" where
  "write_blocks video_len f [] = (Returned, f)"
| "write_blocks video_len f (block # blocks) =
     (if video_len = 0 then (Raised ZeroDivisionError, f @ block)
      else write_blocks video_len (f @ block) blocks)"

text \<open>
  \<^verbatim>\<open>download_video(session, filename, template_params)\<close>, lines 762 to 876.
  With \<^verbatim>\<open>--threads\<close>: the check of the number, the counter reset, the file created
  with \<^verbatim>\<open>video_len\<close> zero bytes, the workers, and the join of the progress thread,
  which has set \<^verbatim>\<open>finished\<close> already if one of the values it read while the workers
  ran was at or above \<^verbatim>\<open>video_len\<close>.
  Without: the size gate on an existing file, the ranged request from
  \<^verbatim>\<open>current_byte_pos - BLOCK_SIZE\<close>, the comparison of the first block with the bytes of
  the file from that position, and either the appending of the remaining blocks or
  \<^verbatim>\<open>os.remove\<close> and the recursive call; with no file, the request from 0 written to a
  new file.
\<close>

function download_video :: "cmdl_opts \<Rightarrow> server \<Rightarrow> world \<Rightarrow> outcome \<times> world" where
  "download_video opts srv w =
     (case head_response srv of
        None \<Rightarrow> (Raised HTTPError, sent Head w)
      | Some video_len \<Rightarrow>
          (case threads opts of
             Some thread_count \<Rightarrow>
               if thread_count \<le> 0
               then (Raised (ArgumentException ''Thread number must be a positive integer''),
                     sent Head w)
               else
                 (let w1 = (sent Head w)\<lparr>progress := 0, trace := [],
                              local_file := Some (replicate video_len (CHR 0x00))\<rparr>;
                      w2 = run_parts srv (partitions (int video_len) thread_count) w1;
                      finished = list_ex (\<lambda>v. int video_len \<le> v) (polled (polls w2) (trace w2))
                  in case show_multithread_progress (int video_len) (progress w2) finished of
                       None \<Rightarrow> (Hangs, w2)
                     | Some _ \<Rightarrow> (Returned, w2))
           | None \<Rightarrow>
               (case local_file w of
                  Some existing \<Rightarrow>
                    (let current_byte_pos = length existing in
                     if current_byte_pos < video_len then
                       (let dl = int current_byte_pos - int BLOCK_SIZE;
                            w1 = sent (Get (RangeFrom dl)) (sent Head w)
                        in case get_response srv (RangeFrom dl) of
                             None \<Rightarrow> (Raised HTTPError, w1)
                           | Some body \<Rightarrow>
                               (case iter_content BLOCK_SIZE body of
                                  [] \<Rightarrow> (Raised StopIteration, w1)
                                | new_data # blocks \<Rightarrow>
                                    if int current_byte_pos - int (length new_data) \<le> 0
                                    then download_video opts srv (w1\<lparr>local_file := None\<rparr>)
                                    else if dl < 0 then (Raised OSError, w1)
                                    else
                                      (let existing_data =
                                             take (length new_data) (drop (nat dl) existing)
                                       in if new_data = existing_data
                                          then (case write_blocks video_len existing blocks of
                                                  (how, f) \<Rightarrow> (how, w1\<lparr>local_file := Some f\<rparr>))
                                          else download_video opts srv (w1\<lparr>local_file := None\<rparr>))))
                     else if current_byte_pos > video_len
                     then (Raised (FormatNotAvailableException length_message), sent Head w)
                     else (Returned, sent Head w))
                | None \<Rightarrow>
                    (let w1 = sent (Get (RangeFrom 0)) (sent Head w)
                     in case get_response srv (RangeFrom 0) of
                          None \<Rightarrow> (Raised HTTPError, w1)
                        | Some body \<Rightarrow>
                            (case write_blocks video_len [] (iter_content BLOCK_SIZE body) of
                               (how, f) \<Rightarrow> (how, w1\<lparr>local_file := Some f\<rparr>))))))"
  by pat_completeness auto
termination
  by (relation "measure (\<lambda>(opts, srv, w). if local_file w = None then 0 else 1)")
     (auto simp: sent_def)

declare download_video.simps [simp del]

subsection \<open>Servers and sample inputs\<close>


text \<open>
  A server for \<open>content\<close> that answers range requests as HTTP describes them: both ends
  of \<^verbatim>\<open>bytes=a-b\<close> are inclusive and \<open>b\<close> is cut to the last byte; a range that starts
  at or after the end of the content is refused (status 416); a header that is no valid
  byte range (a negative number, \<open>b < a\<close>) is ignored and the whole content sent.
\<close>

definition rfc_server :: "bytes \<Rightarrow> server" where
  "rfc_server content =
     \<lparr>head_response = Some (length content),
      get_response = (\<lambda>range. case range of
          RangeFrom first_pos \<Rightarrow>
            if first_pos < 0 then Some content
            else if nat first_pos < length content then Some (drop (nat first_pos) content)
            else None
        | RangeTo first_pos last_pos \<Rightarrow>
            if first_pos < 0 \<or> last_pos < first_pos then Some content
            else if nat first_pos < length content
            then Some (take (nat last_pos + 1 - nat first_pos) (drop (nat first_pos) content))
            else None)\<rparr>"

text \<open>A server that refuses every request.\<close>

definition refusing_server :: server where
  "refusing_server = \<lparr>head_response = None, get_response = (\<lambda>range. None)\<rparr>"


definition no_file :: world where
  "no_file = \<lparr>local_file = None, requests = [], progress = 0, trace = [], polls = []\<rparr>"


section \<open>Session renewal: \<^verbatim>\<open>perform_heartbeat\<close>\<close>

text \<open>
  Time is a logical clock in milliseconds. A session document carries the lifetime the
  server advertises (\<^verbatim>\<open>heartbeat_lifetime\<close>, in milliseconds); its other fields play no
  part here. A reply to the heartbeat \<^verbatim>\<open>POST\<close> arrives after some latency and carries
  the new session document, or a status on which \<^verbatim>\<open>raise_for_status()\<close> raises.
\<close>

definition DMC_HEARTBEAT_INTERVAL_S :: nat where
  "DMC_HEARTBEAT_INTERVAL_S = 15"

record dmc_session =
  heartbeat_lifetime :: nat

record post_reply =
  latency_ms :: nat
  reply_session :: "dmc_session option"

record heartbeat_timer =
  renewed_at :: nat
  fires_at :: nat
  timer_response :: dmc_session

text \<open>
  \<^verbatim>\<open>perform_heartbeat(session, heartbeat_url, response)\<close> called at time \<open>now\<close>: the
  \<^verbatim>\<open>POST\<close> of the previous response, and on success a
  \<^verbatim>\<open>threading.Timer(DMC_HEARTBEAT_INTERVAL_S, perform_heartbeat, ...)\<close> started when the
  reply has arrived. The timer is taken as exact: it fires the given number of seconds
  after it is started. The function does not read the lifetime.
\<close>

definition perform_heartbeat :: "nat \<Rightarrow> dmc_session \<Rightarrow> post_reply \<Rightarrow> error + heartbeat_timer" where
  "perform_heartbeat now response reply =
     (case reply_session reply of
        None \<Rightarrow> Inl HTTPError
      | Some response' \<Rightarrow>
          Inr \<lparr>renewed_at = now + latency_ms reply,
               fires_at = now + latency_ms reply + 1000 * DMC_HEARTBEAT_INTERVAL_S,
               timer_response = response'\<rparr>)"

text \<open>
  The chain of heartbeats: each timer, when it fires, calls \<^verbatim>\<open>perform_heartbeat\<close> with
  the response of the one before. The chain ends with the first failed \<^verbatim>\<open>POST\<close>.
\<close>

fun heartbeat_chain :: "nat \<Rightarrow> dmc_session \<Rightarrow> post_reply list \<Rightarrow> heartbeat_timer list" where
  "heartbeat_chain now response [] = []"
| "heartbeat_chain now response (reply # replies) =
     (case perform_heartbeat now response reply of
        Inl e \<Rightarrow> []
      | Inr timer \<Rightarrow> timer # heartbeat_chain (fires_at timer) (timer_response timer) replies)"

section \<open>The progress counter under interleaving: \<^verbatim>\<open>update_multithread_progress\<close>\<close>

text \<open>
  \<^verbatim>\<open>update_multithread_progress(bytes_len)\<close> statement by statement, so that calls of
  different threads can interleave: create the lock (\<^verbatim>\<open>lock = threading.Lock()\<close>, a
  local variable, so every call has a new lock), acquire it, read the global
  \<^verbatim>\<open>progress\<close>, store the sum, release the lock. The statement
  \<^verbatim>\<open>progress += bytes_len\<close> is a read followed by a write; another thread can run
  between the two. The shared state holds the counter, the locks now held and the
  number of locks created so far, which names the next lock.
\<close>

datatype pc = AtCreate | AtAcquire | AtLoad | AtStore | AtRelease | AtEnd

record call =
  at :: pc
  lock :: "nat option"
  bytes_len :: int
  loaded :: int

record shared =
  progress_global :: int
  held :: "nat set"
  created :: nat

definition new_call :: "int \<Rightarrow> call" where
  "new_call n = \<lparr>at = AtCreate, lock = None, bytes_len = n, loaded = 0\<rparr>"

text \<open>
  One statement of a call. Acquiring a lock that is held blocks (\<open>None\<close>), as does a
  call that has ended.
\<close>

definition step :: "call \<Rightarrow> shared \<Rightarrow> (call \<times> shared) option" where
  "step c s =
     (case at c of
        AtCreate \<Rightarrow>
          Some (c\<lparr>at := AtAcquire, lock := Some (created s)\<rparr>, s\<lparr>created := created s + 1\<rparr>)
      | AtAcquire \<Rightarrow>
          (case lock c of
             None \<Rightarrow> None
           | Some l \<Rightarrow>
               if l \<in> held s then None
               else Some (c\<lparr>at := AtLoad\<rparr>, s\<lparr>held := insert l (held s)\<rparr>))
      | AtLoad \<Rightarrow> Some (c\<lparr>at := AtStore, loaded := progress_global s\<rparr>, s)
      | AtStore \<Rightarrow> Some (c\<lparr>at := AtRelease\<rparr>, s\<lparr>progress_global := loaded c + bytes_len c\<rparr>)
      | AtRelease \<Rightarrow>
          (case lock c of
             None \<Rightarrow> None
           | Some l \<Rightarrow> Some (c\<lparr>at := AtEnd\<rparr>, s\<lparr>held := held s - {l}\<rparr>))
      | AtEnd \<Rightarrow> None)"

text \<open>A schedule names, step by step, the thread that runs next.\<close>

fun run :: "nat list \<Rightarrow> call list \<times> shared \<Rightarrow> (call list \<times> shared) option" where
  "run [] st = Some st"
| "run (i # schedule) (calls, s) =
     (if i < length calls
      then (case step (calls ! i) s of
              None \<Rightarrow> None
            | Some (c, s') \<Rightarrow> run schedule (calls[i := c], s'))
      else None)"

text \<open>Two workers, each reporting a block of 1024 bytes, with the counter at 0.\<close>

definition two_workers :: "call list \<times> shared" where
  "two_workers =
     ([new_call 1024, new_call 1024], \<lparr>progress_global = 0, held = {}, created = 0\<rparr>)"

section \<open>Master playlist: \<^verbatim>\<open>get_playlist_from_m3u8\<close>\<close>

text \<open>
  \<^verbatim>\<open>M3U8_STREAM_RE.findall(m3u8_text)\<close> yields the list of matches, each a pair of the
  digits after \<^verbatim>\<open>BANDWIDTH=\<close> and the following line. The regular-expression matching is
  the library's; the function is modelled from the list of matches on, with the digits
  already read as the natural number \<^verbatim>\<open>int(match[0])\<close> gives (the group is \<^verbatim>\<open>\d+\<close>).
  The loop keeps \<^verbatim>\<open>best_bandwidth, best_stream\<close>, starting from \<^verbatim>\<open>-1, None\<close>.
\<close>

fun best_stream_loop :: "(nat \<times> string) list \<Rightarrow> int \<times> string option \<Rightarrow> int \<times> string option" where
  "best_stream_loop [] acc = acc"
| "best_stream_loop (match # matches) (best_bandwidth, best_stream) =
     (let stream_bandwidth = int (fst match) in
      if stream_bandwidth > best_bandwidth
      then best_stream_loop matches (stream_bandwidth, Some (snd match))
      else best_stream_loop matches (best_bandwidth, best_stream))"

definition get_playlist_from_m3u8 :: "(nat \<times> string) list \<Rightarrow> error + string option" where
  "get_playlist_from_m3u8 matches =
     (if matches = []
      then Inl (FormatNotAvailableException
                  ''Could not retrieve stream playlist from master playlist'')
      else Inr (snd (best_stream_loop matches (- 1, None))))"

chapter \<open>Properties\<close>

section \<open>Quality selection: the contract\<close>

text \<open>The first element that passes a filter, with the elements before it failing.\<close>

lemma take_1_filter:
  assumes "\<exists>c\<in>set xs. P c"
  shows "\<exists>pre c post. xs = pre @ c # post \<and> P c \<and> (\<forall>x\<in>set pre. \<not> P x) \<and>
            filter P xs \<noteq> [] \<and> take 1 (filter P xs) = [c]"
proof -
  from assms have "filter P xs \<noteq> []" by (simp add: filter_empty_conv)
  then obtain c cs where c: "filter P xs = c # cs" by (cases "filter P xs") auto
  then obtain pre post where "xs = pre @ c # post" "\<forall>u\<in>set pre. \<not> P u" "P c"
    unfolding filter_eq_Cons_iff by blast
  with c show ?thesis by auto
qed

text \<open>
  Claim C3. On a non-empty list of sources, in the order the platform gives them:
  the first source is selected whenever \<^verbatim>\<open>--force-high-quality\<close> is set, or the
  requested quality is absent (\<open>None\<close> or empty, Python's \<^verbatim>\<open>not quality\<close>), or it is
  \<open>highest\<close> in any letter case; the forced flag wins over a requested value, and a
  warning is output exactly when a value was requested together with the flag.
  Otherwise the last source is selected when the requested quality is \<open>lowest\<close> in any
  letter case. Otherwise, when some source equals the requested quality up to letter
  case, the first such source is selected. The selected source is stored under the
  template key and returned as a one-element list.
\<close>

theorem select_dmc_quality_contract:
  assumes "sources \<noteq> []"
  shows
   "(force_high_quality opts \<or> \<not> truthy quality
        \<or> (\<exists>q. quality = Some q \<and> lower q = ''highest'') \<longrightarrow>
      select_dmc_quality opts template_params template_key sources quality
        = Inr (template_params(template_key \<mapsto> hd sources), [hd sources],
               if truthy quality \<and> force_high_quality opts then [force_warning] else [])) \<and>
    (\<not> force_high_quality opts \<and> truthy quality
        \<and> (\<exists>q. quality = Some q \<and> lower q \<noteq> ''highest'' \<and> lower q = ''lowest'') \<longrightarrow>
      select_dmc_quality opts template_params template_key sources quality
        = Inr (template_params(template_key \<mapsto> last sources), [last sources], [])) \<and>
    (\<forall>q. \<not> force_high_quality opts \<and> quality = Some q \<and> q \<noteq> []
        \<and> lower q \<noteq> ''highest'' \<and> lower q \<noteq> ''lowest''
        \<and> (\<exists>c\<in>set sources. lower c = lower q) \<longrightarrow>
      (\<exists>pre c post. sources = pre @ c # post \<and> lower c = lower q
          \<and> (\<forall>x\<in>set pre. lower x \<noteq> lower q)
          \<and> select_dmc_quality opts template_params template_key sources quality
                = Inr (template_params(template_key \<mapsto> c), [c], [])))"
proof (intro conjI impI allI)
  assume "force_high_quality opts \<or> \<not> truthy quality
        \<or> (\<exists>q. quality = Some q \<and> lower q = ''highest'')"
  with assms show "select_dmc_quality opts template_params template_key sources quality
        = Inr (template_params(template_key \<mapsto> hd sources), [hd sources],
               if truthy quality \<and> force_high_quality opts then [force_warning] else [])"
    by (cases quality; cases sources) (auto simp: truthy_def select_slice_def)
next
  assume "\<not> force_high_quality opts \<and> truthy quality
        \<and> (\<exists>q. quality = Some q \<and> lower q \<noteq> ''highest'' \<and> lower q = ''lowest'')"
  with assms show "select_dmc_quality opts template_params template_key sources quality
        = Inr (template_params(template_key \<mapsto> last sources), [last sources], [])"
    by (auto simp: truthy_def select_slice_def last_slice_def)
next
  fix q
  assume a: "\<not> force_high_quality opts \<and> quality = Some q \<and> q \<noteq> []
        \<and> lower q \<noteq> ''highest'' \<and> lower q \<noteq> ''lowest''
        \<and> (\<exists>c\<in>set sources. lower c = lower q)"
  then have "\<exists>c\<in>set sources. (\<lambda>x. lower x = lower q) c" by simp
  from take_1_filter[OF this] obtain pre c post where
    p: "sources = pre @ c # post" "lower c = lower q" "\<forall>x\<in>set pre. lower x \<noteq> lower q"
       "filter (\<lambda>x. lower x = lower q) sources \<noteq> []"
       "take 1 (filter (\<lambda>x. lower x = lower q) sources) = [c]"
    by blast
  from a p(4,5) have "select_dmc_quality opts template_params template_key sources quality
                = Inr (template_params(template_key \<mapsto> c), [c], [])"
    by (simp add: select_slice_def)
  with p(1-3) show "\<exists>pre c post. sources = pre @ c # post \<and> lower c = lower q
          \<and> (\<forall>x\<in>set pre. lower x \<noteq> lower q)
          \<and> select_dmc_quality opts template_params template_key sources quality
                = Inr (template_params(template_key \<mapsto> c), [c], [])"
    by blast
qed

text \<open>
  The contract used at the sources \<open>high, mid, low\<close>: forced with \<open>low\<close> requested,
  \<open>Lowest\<close> requested, and \<open>MID\<close> requested.
\<close>

theorem select_dmc_quality_contract_witness:
  "select_dmc_quality \<lparr>threads = None, force_high_quality = True\<rparr> Map.empty ''video_quality''
       [''high'', ''mid'', ''low''] (Some ''low'')
     = Inr ([''video_quality'' \<mapsto> ''high''], [''high''], [force_warning]) \<and>
   select_dmc_quality \<lparr>threads = None, force_high_quality = False\<rparr> Map.empty ''video_quality''
       [''high'', ''mid'', ''low''] (Some ''Lowest'')
     = Inr ([''video_quality'' \<mapsto> ''low''], [''low''], []) \<and>
   (\<exists>pre c post. [''high'', ''mid'', ''low''] = pre @ c # post \<and> lower c = lower ''MID''
       \<and> (\<forall>x\<in>set pre. lower x \<noteq> lower ''MID'')
       \<and> select_dmc_quality \<lparr>threads = None, force_high_quality = False\<rparr> Map.empty
             ''video_quality'' [''high'', ''mid'', ''low''] (Some ''MID'')
            = Inr ([''video_quality'' \<mapsto> c], [c], []))"
proof -
  let ?S = "[''high'', ''mid'', ''low'']"
  have ne: "?S \<noteq> []" by simp
  have l1: "lower ''Lowest'' \<noteq> ''highest''" "lower ''Lowest'' = ''lowest''"
    by code_simp+
  have l2: "lower ''MID'' \<noteq> ''highest''" "lower ''MID'' \<noteq> ''lowest''"
    "lower ''mid'' = lower ''MID''"
    by code_simp+
  note c = select_dmc_quality_contract [OF ne]
  have 1: "select_dmc_quality \<lparr>threads = None, force_high_quality = True\<rparr> Map.empty ''video_quality''
       ?S (Some ''low'') = Inr ([''video_quality'' \<mapsto> ''high''], [''high''], [force_warning])"
    using c [of "\<lparr>threads = None, force_high_quality = True\<rparr>" "Some ''low''" Map.empty
        "''video_quality''", THEN conjunct1]
    by (simp add: truthy_def)
  have 2: "select_dmc_quality \<lparr>threads = None, force_high_quality = False\<rparr> Map.empty ''video_quality''
       ?S (Some ''Lowest'') = Inr ([''video_quality'' \<mapsto> ''low''], [''low''], [])"
    using c [of "\<lparr>threads = None, force_high_quality = False\<rparr>" "Some ''Lowest''" Map.empty
        "''video_quality''", THEN conjunct2, THEN conjunct1] l1
    by (simp add: truthy_def)
  have 3: "\<exists>pre c post. ?S = pre @ c # post \<and> lower c = lower ''MID''
       \<and> (\<forall>x\<in>set pre. lower x \<noteq> lower ''MID'')
       \<and> select_dmc_quality \<lparr>threads = None, force_high_quality = False\<rparr> Map.empty
             ''video_quality'' ?S (Some ''MID'')
            = Inr ([''video_quality'' \<mapsto> c], [c], [])"
    using c [of "\<lparr>threads = None, force_high_quality = False\<rparr>" "Some ''MID''" Map.empty
        "''video_quality''", THEN conjunct2, THEN conjunct2, rule_format, of "''MID''"] l2
    by simp
  from 1 2 3 show ?thesis by blast
qed

text \<open>
  Claim C4. For every list of sources and every requested quality that is non-empty,
  neither \<open>highest\<close> nor \<open>lowest\<close> in any letter case, with
  \<^verbatim>\<open>--force-high-quality\<close> unset, and equal to no source up to letter case, the
  selection raises \<open>FormatNotAvailableException\<close> with the message
  \<^verbatim>\<open>Quality '<requested>' is not available. Available qualities: <sources>\<close>, the
  sources formatted as Python prints the list. On a non-empty list of sources the
  selection raises in no other case.
\<close>

theorem select_dmc_quality_failure:
  "(\<not> force_high_quality opts \<and> q \<noteq> [] \<and> lower q \<noteq> ''highest'' \<and> lower q \<noteq> ''lowest''
      \<and> (\<forall>c\<in>set sources. lower c \<noteq> lower q) \<longrightarrow>
     select_dmc_quality opts template_params template_key sources (Some q)
       = Inl (FormatNotAvailableException
               (''Quality '' @ [CHR 0x27] @ q @ [CHR 0x27]
                  @ '' is not available. Available qualities: '' @ py_repr_list sources))) \<and>
   (sources \<noteq> [] \<longrightarrow>
     (\<forall>e. select_dmc_quality opts template_params template_key sources quality = Inl e \<longrightarrow>
        \<not> force_high_quality opts \<and>
        (\<exists>r. quality = Some r \<and> r \<noteq> [] \<and> lower r \<noteq> ''highest'' \<and> lower r \<noteq> ''lowest''
            \<and> (\<forall>c\<in>set sources. lower c \<noteq> lower r)
            \<and> e = FormatNotAvailableException (quality_message r sources))))"
proof (intro conjI impI allI)
  assume "\<not> force_high_quality opts \<and> q \<noteq> [] \<and> lower q \<noteq> ''highest'' \<and> lower q \<noteq> ''lowest''
      \<and> (\<forall>c\<in>set sources. lower c \<noteq> lower q)"
  then show "select_dmc_quality opts template_params template_key sources (Some q)
       = Inl (FormatNotAvailableException
               (''Quality '' @ [CHR 0x27] @ q @ [CHR 0x27]
                  @ '' is not available. Available qualities: '' @ py_repr_list sources))"
    by (simp add: quality_message_def filter_empty_conv)
next
  fix e
  assume ne: "sources \<noteq> []"
    and f: "select_dmc_quality opts template_params template_key sources quality = Inl e"
  from ne obtain s ss where s: "sources = s # ss" by (cases sources) auto
  show "\<not> force_high_quality opts"
    using f s by (cases quality) (auto simp: select_slice_def)
  show "\<exists>r. quality = Some r \<and> r \<noteq> [] \<and> lower r \<noteq> ''highest'' \<and> lower r \<noteq> ''lowest''
            \<and> (\<forall>c\<in>set sources. lower c \<noteq> lower r)
            \<and> e = FormatNotAvailableException (quality_message r sources)"
  proof (cases quality)
    case None
    with f s show ?thesis by (simp add: select_slice_def)
  next
    case (Some r)
    have nf: "filter (\<lambda>x. lower x = lower r) sources \<noteq> [] \<Longrightarrow>
          select_slice template_params template_key (take 1 (filter (\<lambda>x. lower x = lower r) sources)) [] \<noteq> Inl e"
      by (cases "filter (\<lambda>x. lower x = lower r) sources") (auto simp: select_slice_def)
    from f s Some nf show ?thesis
      by (auto simp: select_slice_def last_slice_def Let_def filter_empty_conv split: if_splits)
  qed
qed

text \<open>
  The failure at the sources \<open>high, low\<close> with \<open>mid\<close> requested: the message reads
  \<^verbatim>\<open>Quality 'mid' is not available. Available qualities: ['high', 'low']\<close>.
\<close>

theorem select_dmc_quality_failure_witness:
  "select_dmc_quality \<lparr>threads = None, force_high_quality = False\<rparr> Map.empty ''video_quality''
       [''high'', ''low''] (Some ''mid'')
     = Inl (FormatNotAvailableException
              (''Quality '' @ [CHR 0x27] @ ''mid'' @ [CHR 0x27]
                 @ '' is not available. Available qualities: ''
                 @ ''['' @ [CHR 0x27] @ ''high'' @ [CHR 0x27] @ '', ''
                 @ [CHR 0x27] @ ''low'' @ [CHR 0x27] @ '']'')) \<and>
   (\<exists>r. Some ''mid'' = Some r \<and> r \<noteq> [] \<and> lower r \<noteq> ''highest'' \<and> lower r \<noteq> ''lowest''
       \<and> (\<forall>c\<in>set [''high'', ''low'']. lower c \<noteq> lower r))"
proof -
  let ?S = "[''high'', ''low'']"
  let ?o = "\<lparr>threads = None, force_high_quality = False\<rparr>"
  have l: "lower ''mid'' \<noteq> ''highest''" "lower ''mid'' \<noteq> ''lowest''"
    "lower ''high'' \<noteq> lower ''mid''" "lower ''low'' \<noteq> lower ''mid''"
    by code_simp+
  have r: "py_repr_list ?S = ''['' @ [CHR 0x27] @ ''high'' @ [CHR 0x27] @ '', ''
                 @ [CHR 0x27] @ ''low'' @ [CHR 0x27] @ '']''"
    by code_simp
  note f = select_dmc_quality_failure [of ?o _ ?S Map.empty "''video_quality''"]
  have 1: "select_dmc_quality ?o Map.empty ''video_quality'' ?S (Some ''mid'')
     = Inl (FormatNotAvailableException
              (''Quality '' @ [CHR 0x27] @ ''mid'' @ [CHR 0x27]
                 @ '' is not available. Available qualities: '' @ py_repr_list ?S))"
    using f [of "''mid''", THEN conjunct1] l by simp
  have 2: "\<exists>r. Some ''mid'' = Some r \<and> r \<noteq> [] \<and> lower r \<noteq> ''highest'' \<and> lower r \<noteq> ''lowest''
       \<and> (\<forall>c\<in>set ?S. lower c \<noteq> lower r)"
    using f [of _ "Some ''mid''", THEN conjunct2, rule_format, OF _ 1] by blast
  from 1 2 r show ?thesis by simp
qed

section \<open>The transfer engine: properties\<close>

subsection \<open>Blocks and streams\<close>

lemma BLOCK_SIZE_pos: "0 < BLOCK_SIZE"
  by (simp add: BLOCK_SIZE_def)

lemma iter_content_Cons:
  "body \<noteq> [] \<Longrightarrow> 0 < n \<Longrightarrow> iter_content n body = take n body # iter_content n (drop n body)"
  by (subst iter_content.simps) simp

lemma iter_content_Nil: "iter_content n [] = []"
  by (subst iter_content.simps) simp

lemma concat_iter_content: "0 < n \<Longrightarrow> concat (iter_content n body) = body"
proof (induction n body rule: iter_content.induct)
  case (1 n body)
  show ?case
  proof (cases "body = []")
    case True
    then show ?thesis by (simp add: iter_content_Nil)
  next
    case False
    with 1 show ?thesis by (simp add: iter_content_Cons)
  qed
qed






subsection \<open>Single-stream resume\<close>




subsection \<open>The size gate on an existing file\<close>

text \<open>
  Claim C5, as amended. Without \<^verbatim>\<open>--threads\<close>, with an existing file and a \<^verbatim>\<open>HEAD\<close>
  that answers \<open>video_len\<close>: when the size of the file equals \<open>video_len\<close> the call
  returns, and when it exceeds \<open>video_len\<close> the call raises
  \<open>FormatNotAvailableException\<close> (the length mismatch), whether
  \<^verbatim>\<open>--force-high-quality\<close> is set or not: the options are arbitrary but for \<open>threads\<close>.
  In both cases the file is left as it was and the only request sent is the \<^verbatim>\<open>HEAD\<close>:
  no media is requested, nothing is resumed. The message of the exception points the
  user to the flag.
\<close>

theorem existing_file_size_gate:
  assumes "threads opts = None" "head_response srv = Some video_len"
    and "local_file w = Some existing"
  shows
   "(length existing = video_len \<longrightarrow>
       download_video opts srv w = (Returned, sent Head w)) \<and>
    (length existing > video_len \<longrightarrow>
       download_video opts srv w
         = (Raised (FormatNotAvailableException length_message), sent Head w)) \<and>
    local_file (sent Head w) = Some existing \<and>
    requests (sent Head w) = requests w @ [Head]"
  by (subst (1 2) download_video.simps) (simp add: assms sent_def)

text \<open>C5 as amended, at a content of four bytes: an equal file, and a longer one with
  the flag unset and set.\<close>

theorem existing_file_size_gate_witness:
  "download_video \<lparr>threads = None, force_high_quality = False\<rparr> (rfc_server ''abcd'')
       (no_file\<lparr>local_file := Some ''abcd''\<rparr>)
     = (Returned, no_file\<lparr>local_file := Some ''abcd'', requests := [Head]\<rparr>) \<and>
   download_video \<lparr>threads = None, force_high_quality = False\<rparr> (rfc_server ''abcd'')
       (no_file\<lparr>local_file := Some ''abcdef''\<rparr>)
     = (Raised (FormatNotAvailableException length_message),
        no_file\<lparr>local_file := Some ''abcdef'', requests := [Head]\<rparr>) \<and>
   download_video \<lparr>threads = None, force_high_quality = True\<rparr> (rfc_server ''abcd'')
       (no_file\<lparr>local_file := Some ''abcdef''\<rparr>)
     = (Raised (FormatNotAvailableException length_message),
        no_file\<lparr>local_file := Some ''abcdef'', requests := [Head]\<rparr>)"
  using
    existing_file_size_gate [of "\<lparr>threads = None, force_high_quality = False\<rparr>"
       "rfc_server ''abcd''" 4 "no_file\<lparr>local_file := Some ''abcd''\<rparr>" "''abcd''"]
    existing_file_size_gate [of "\<lparr>threads = None, force_high_quality = False\<rparr>"
       "rfc_server ''abcd''" 4 "no_file\<lparr>local_file := Some ''abcdef''\<rparr>" "''abcdef''"]
    existing_file_size_gate [of "\<lparr>threads = None, force_high_quality = True\<rparr>"
       "rfc_server ''abcd''" 4 "no_file\<lparr>local_file := Some ''abcdef''\<rparr>" "''abcdef''"]
  by (simp add: rfc_server_def sent_def no_file_def)

text \<open>
  C5 as the spec states it fails: with \<^verbatim>\<open>--force-high-quality\<close> set, a file longer than
  the content makes the call raise the same length-mismatch exception as with the flag
  unset; the flag makes no exception to the failure.
\<close>

theorem existing_file_size_gate_counterexample:
  "force_high_quality \<lparr>threads = None, force_high_quality = True\<rparr> \<and>
   head_response (rfc_server ''abcd'') = Some 4 \<and>
   length ''abcdef'' > 4 \<and>
   download_video \<lparr>threads = None, force_high_quality = True\<rparr> (rfc_server ''abcd'')
       (no_file\<lparr>local_file := Some ''abcdef''\<rparr>)
     = (Raised (FormatNotAvailableException length_message),
        no_file\<lparr>local_file := Some ''abcdef'', requests := [Head]\<rparr>) \<and>
   download_video \<lparr>threads = None, force_high_quality = True\<rparr> (rfc_server ''abcd'')
       (no_file\<lparr>local_file := Some ''abcdef''\<rparr>)
     = download_video \<lparr>threads = None, force_high_quality = False\<rparr> (rfc_server ''abcd'')
         (no_file\<lparr>local_file := Some ''abcdef''\<rparr>)"
  by (subst (1 2 3) download_video.simps) (simp add: rfc_server_def sent_def no_file_def)

subsection \<open>The check of the thread count\<close>

text \<open>
  Claim C8, as amended. When \<^verbatim>\<open>--threads\<close> is given as zero or a negative number and the
  \<^verbatim>\<open>HEAD\<close> request for the content length succeeds, the call raises
  \<open>ArgumentException\<close>; before that it has sent the \<^verbatim>\<open>HEAD\<close> request and nothing
  else, and it has not touched the file or the counter.
\<close>

theorem thread_count_check:
  assumes "threads opts = Some thread_count" "thread_count \<le> 0"
    and "head_response srv = Some video_len"
  shows
   "download_video opts srv w
      = (Raised (ArgumentException ''Thread number must be a positive integer''), sent Head w) \<and>
    local_file (sent Head w) = local_file w \<and>
    progress (sent Head w) = progress w \<and>
    requests (sent Head w) = requests w @ [Head]"
  by (subst download_video.simps) (simp add: assms sent_def)

text \<open>C8 as amended, at \<^verbatim>\<open>--threads -2\<close>.\<close>

theorem thread_count_check_witness:
  "download_video \<lparr>threads = Some (- 2), force_high_quality = False\<rparr> (rfc_server ''abcd'')
       (no_file\<lparr>local_file := Some ''ab''\<rparr>)
     = (Raised (ArgumentException ''Thread number must be a positive integer''),
        no_file\<lparr>local_file := Some ''ab'', requests := [Head]\<rparr>)"
  using thread_count_check [of "\<lparr>threads = Some (- 2), force_high_quality = False\<rparr>" "- 2"
      "rfc_server ''abcd''" 4 "no_file\<lparr>local_file := Some ''ab''\<rparr>"]
  by (simp add: rfc_server_def sent_def no_file_def)

text \<open>
  C8 as the spec states it fails: with \<^verbatim>\<open>--threads 0\<close> the \<^verbatim>\<open>HEAD\<close> request is sent
  before the exception is raised, and when the \<^verbatim>\<open>HEAD\<close> is refused the exception is
  the \<open>HTTPError\<close> of \<^verbatim>\<open>raise_for_status\<close>.
\<close>

theorem thread_count_check_counterexample:
  "download_video \<lparr>threads = Some 0, force_high_quality = False\<rparr> (rfc_server ''abcd'') no_file
     = (Raised (ArgumentException ''Thread number must be a positive integer''),
        no_file\<lparr>requests := [Head]\<rparr>) \<and>
   requests (snd (download_video \<lparr>threads = Some 0, force_high_quality = False\<rparr>
                    (rfc_server ''abcd'') no_file)) \<noteq> [] \<and>
   download_video \<lparr>threads = Some 0, force_high_quality = False\<rparr> refusing_server no_file
     = (Raised HTTPError, no_file\<lparr>requests := [Head]\<rparr>)"
  by (subst (1 2 3) download_video.simps)
     (simp add: rfc_server_def refusing_server_def sent_def no_file_def)

subsection \<open>The ranges of the workers\<close>

lemma partitions_5_4: "partitions 5 4 = [(0, 2), (2, 4), (4, 6), (6, 5)]"
  by code_simp

lemma partitions_1000_4: "partitions 1000 4 = [(0, 250), (250, 500), (500, 750), (750, 1000)]"
  by code_simp

text \<open>
  When the start of the last range is inside the content or at its end, that is
  \<open>ceil_div L n * (n - 1) \<le> L\<close>, the ranges are as C2 describes them: the first starts
  at 0, the last ends at \<open>L\<close>, each but the last has the length \<open>ceil_div L n\<close> and ends
  where the next starts, no two overlap, and their union is \<open>[0, L)\<close>.
\<close>

lemma ceil_div_nonneg: "0 \<le> a \<Longrightarrow> 0 < b \<Longrightarrow> 0 \<le> ceil_div a b"
  by (simp add: ceil_div_def div_nonpos_pos_le0)

lemma length_partitions: "length (partitions L n) = nat n"
  by (simp add: partitions_def Let_def)

lemma partitions_nth:
  "i < nat n \<Longrightarrow> partitions L n ! i
     = (ceil_div L n * int i,
        if int i = n - 1 then L else ceil_div L n * int i + ceil_div L n)"
  by (simp add: partitions_def Let_def)

lemma ceil_div_zero: "0 \<le> a \<Longrightarrow> 0 < b \<Longrightarrow> ceil_div a b = 0 \<Longrightarrow> a = 0"
  unfolding ceil_div_def
  by (auto simp: zdiv_eq_0_iff)

lemma partitions_union:
  assumes "0 < n" "0 \<le> L" "ceil_div L n * (n - 1) \<le> L"
  shows "(\<Union>(start, end) \<in> set (partitions L n). {start..<end}) = {0..<L}"
proof -
  define p where "p = ceil_div L n"
  have p0: "0 \<le> p" unfolding p_def using assms by (simp add: ceil_div_nonneg)
  have pm: "p * (n - 1) \<le> L" using assms(3) p_def by simp
  have nth: "partitions L n ! i = (p * int i, if int i = n - 1 then L else p * int i + p)"
    if "i < nat n" for i
    using that by (simp add: partitions_nth p_def)
  show ?thesis
  proof (intro set_eqI iffI)
    fix x
    assume "x \<in> (\<Union>(start, end) \<in> set (partitions L n). {start..<end})"
    then obtain i where i: "i < nat n" "x \<in> {fst (partitions L n ! i)..<snd (partitions L n ! i)}"
      by (auto simp: in_set_conv_nth length_partitions)
    have lo: "0 \<le> p * int i" using p0 by simp
    have "int i \<le> n - 1" using i(1) by linarith
    then have "p * int i \<le> p * (n - 1)" using p0 by (rule mult_left_mono)
    have hi: "int i \<noteq> n - 1 \<Longrightarrow> p * int i + p \<le> L"
    proof -
      assume "int i \<noteq> n - 1"
      then have "int i + 1 \<le> n - 1" using i(1) by linarith
      then have "p * (int i + 1) \<le> p * (n - 1)" using p0 by (rule mult_left_mono)
      with pm show ?thesis by (simp add: distrib_left)
    qed
    from i(2) lo hi show "x \<in> {0..<L}"
      by (auto simp: nth[OF i(1)] split: if_splits)
  next
    fix x
    assume x: "x \<in> {0..<L}"
    then have L: "0 < L" by auto
    have pp: "0 < p"
      using p0 ceil_div_zero[OF assms(2,1)] L unfolding p_def by force
    show "x \<in> (\<Union>(start, end) \<in> set (partitions L n). {start..<end})"
    proof (cases "x div p < n - 1")
      case True
      define i where "i = nat (x div p)"
      have xd: "0 \<le> x div p" using x pp by (simp add: pos_imp_zdiv_nonneg_iff)
      then have ii: "int i = x div p" by (simp add: i_def)
      have il: "i < nat n" using True xd ii by linarith
      have md: "p * (x div p) + x mod p = x" by simp
      have "0 \<le> x mod p" "x mod p < p" using pp by simp_all
      with md have "p * (x div p) \<le> x" "x < p * (x div p) + p"
        by linarith+
      then have "x \<in> {fst (partitions L n ! i)..<snd (partitions L n ! i)}"
        using True ii by (simp add: nth[OF il])
      moreover have "partitions L n ! i \<in> set (partitions L n)"
        using il by (simp add: length_partitions)
      ultimately show ?thesis
        by (auto simp: case_prod_beta intro!: bexI[of _ "partitions L n ! i"])
    next
      case False
      define i where "i = nat n - 1"
      have il: "i < nat n" "int i = n - 1" using assms(1) by (auto simp: i_def)
      from False have "n - 1 \<le> x div p" by simp
      then have "p * (n - 1) \<le> p * (x div p)" using p0 by (rule mult_left_mono)
      also have "\<dots> \<le> x"
      proof -
        have "p * (x div p) + x mod p = x" by simp
        moreover have "0 \<le> x mod p" using pp by simp
        ultimately show ?thesis by linarith
      qed
      finally have "p * (n - 1) \<le> x" .
      then have "x \<in> {fst (partitions L n ! i)..<snd (partitions L n ! i)}"
        using x il by (simp add: nth[OF il(1)])
      moreover have "partitions L n ! i \<in> set (partitions L n)"
        using il by (simp add: length_partitions)
      ultimately show ?thesis
        by (auto simp: case_prod_beta intro!: bexI[of _ "partitions L n ! i"])
    qed
  qed
qed


lemma partitions_contiguous:
  assumes "0 < n" "0 \<le> L" "ceil_div L n * (n - 1) \<le> L"
  shows "fst (partitions L n ! 0) = 0 \<and>
         snd (partitions L n ! (nat n - 1)) = L \<and>
         (\<forall>i. Suc i < nat n \<longrightarrow>
            snd (partitions L n ! i) = fst (partitions L n ! Suc i) \<and>
            snd (partitions L n ! i) - fst (partitions L n ! i) = ceil_div L n) \<and>
         (\<forall>i<nat n. fst (partitions L n ! i) \<le> snd (partitions L n ! i)) \<and>
         (\<forall>i j. i < j \<and> j < nat n \<longrightarrow>
            snd (partitions L n ! i) \<le> fst (partitions L n ! j))"
proof -
  define p where "p = ceil_div L n"
  have p0: "0 \<le> p" unfolding p_def using assms by (simp add: ceil_div_nonneg)
  have pm: "p * (n - 1) \<le> L" using assms(3) p_def by simp
  have nth: "partitions L n ! i = (p * int i, if int i = n - 1 then L else p * int i + p)"
    if "i < nat n" for i
    using that by (simp add: partitions_nth p_def)
  have a: "fst (partitions L n ! 0) = 0"
    using assms(1) by (simp add: nth)
  have b: "snd (partitions L n ! (nat n - 1)) = L"
    using assms(1) by (simp add: nth of_nat_diff)
  have c: "snd (partitions L n ! i) = fst (partitions L n ! Suc i) \<and>
           snd (partitions L n ! i) - fst (partitions L n ! i) = p"
    if "Suc i < nat n" for i
  proof -
    from that have "i < nat n" "int i \<noteq> n - 1" by linarith+
    with that show ?thesis by (simp add: nth distrib_left)
  qed
  have d: "fst (partitions L n ! i) \<le> snd (partitions L n ! i)" if "i < nat n" for i
  proof -
    from that have "int i \<le> n - 1" by linarith
    then have "p * int i \<le> p * (n - 1)" using p0 by (rule mult_left_mono)
    with pm p0 that show ?thesis by (simp add: nth)
  qed
  have e: "snd (partitions L n ! i) \<le> fst (partitions L n ! j)"
    if "i < j" "j < nat n" for i j
  proof -
    from that have i: "i < nat n" "int i \<noteq> n - 1" by linarith+
    from that have "int i + 1 \<le> int j" by simp
    then have "p * (int i + 1) \<le> p * int j" using p0 by (rule mult_left_mono)
    with i that show ?thesis by (simp add: nth distrib_left)
  qed
  from a b c d e show ?thesis unfolding p_def by blast
qed

text \<open>
  Claim C2 fails on a small file: for \<open>video_len = 5\<close> and 4 threads the ranges are
  \<open>[0,2), [2,4), [4,6), [6,5)\<close>. Their union is \<open>[0,6)\<close>, not \<open>[0,5)\<close>; the third
  range ends after the content, and the last one starts after its own end.
\<close>

theorem partitions_small_file:
  "partitions 5 4 = [(0, 2), (2, 4), (4, 6), (6, 5)] \<and>
   (\<Union>(start, end) \<in> set (partitions 5 4). {start..<end}) = {0..<6} \<and>
   (\<Union>(start, end) \<in> set (partitions 5 4). {start..<end}) \<noteq> {0..<5} \<and>
   snd (partitions 5 4 ! 2) - fst (partitions 5 4 ! 2) = 2 \<and>
   fst (last (partitions 5 4)) > snd (last (partitions 5 4))"
proof -
  have u: "(\<Union>(start, end) \<in> set (partitions 5 4). {start..<end}) = {0..<6::int}"
    unfolding partitions_5_4 by auto
  have "(5::int) \<in> {0..<6}" "(5::int) \<notin> {0..<5}" by simp_all
  then have "{0..<6::int} \<noteq> {0..<5}" by blast
  with u show ?thesis by (simp add: partitions_5_4)
qed

subsection \<open>The progress counter after the workers\<close>

text \<open>
  Each worker adds the lengths of its blocks and then \<open>-1\<close>. Against a server that
  answers ranges as HTTP describes them, a worker whose range starts inside the content
  receives the bytes from \<^verbatim>\<open>start\<close> to \<^verbatim>\<open>end\<close> inclusive, cut at the last byte, and so
  adds \<open>min end (length - 1) - start\<close>.
\<close>

lemma write_part_blocks_progress:
  "progress (write_part_blocks blocks pos f w) = progress w + int (length (concat blocks))"
  by (induction blocks arbitrary: pos f w) (auto simp: update_multithread_progress_def)

lemma write_part_blocks_file:
  "\<exists>g. local_file (write_part_blocks blocks pos f w) = Some g"
  by (induction blocks arbitrary: pos f w) auto

lemma download_video_part_rfc:
  assumes "local_file w \<noteq> None" "0 \<le> start" "start \<le> end" "nat start < length content"
  shows "progress (snd (download_video_part (rfc_server content) start end w))
           = progress w + (min end (int (length content) - 1) - start)"
    and "local_file (snd (download_video_part (rfc_server content) start end w)) \<noteq> None"
proof -
  from assms(1) obtain f where f: "local_file w = Some f" by auto
  have g: "get_response (rfc_server content) (RangeTo start end)
             = Some (take (nat end + 1 - nat start) (drop (nat start) content))"
    using assms by (simp add: rfc_server_def)
  have len: "int (length (take (nat end + 1 - nat start) (drop (nat start) content)))
               = min end (int (length content) - 1) - start + 1"
    using assms by (simp add: min_def) linarith
  show "progress (snd (download_video_part (rfc_server content) start end w))
           = progress w + (min end (int (length content) - 1) - start)"
    using assms(2) len
    by (simp add: download_video_part_def g f sent_def write_part_blocks_progress
          concat_iter_content BLOCK_SIZE_pos update_multithread_progress_def Let_def)
  show "local_file (snd (download_video_part (rfc_server content) start end w)) \<noteq> None"
    using assms(2)
    by (simp add: download_video_part_def g f sent_def write_part_blocks_file
          update_multithread_progress_def Let_def)
qed

lemma run_parts_rfc:
  assumes "local_file w \<noteq> None"
    and "\<forall>(start, end) \<in> set ranges. 0 \<le> start \<and> start \<le> end \<and> nat start < length content"
  shows "progress (run_parts (rfc_server content) ranges w)
           = progress w
             + (\<Sum>(start, end) \<leftarrow> ranges. min end (int (length content) - 1) - start)"
  using assms
proof (induction ranges arbitrary: w)
  case Nil
  then show ?case by simp
next
  case (Cons r ranges)
  obtain start "end" where r: "r = (start, end)" by (cases r)
  from Cons.prems r have v: "0 \<le> start" "start \<le> end" "nat start < length content"
    by auto
  note p = download_video_part_rfc[OF Cons.prems(1) v]
  from Cons.prems(2) have rest: "\<forall>(start, end) \<in> set ranges.
      0 \<le> start \<and> start \<le> end \<and> nat start < length content" by simp
  show ?case
    unfolding r using Cons.IH[OF p(2) rest] p(1) by simp
qed

lemma show_multithread_progress_Some:
  "show_multithread_progress video_len progress_now finished = Some y
     \<Longrightarrow> finished \<or> video_len = 0 \<or> progress_now \<ge> video_len"
  by (rule show_multithread_progress.raw_induct
        [where P = "\<lambda>video_len progress_now finished y.
                      finished \<or> video_len = 0 \<or> progress_now \<ge> video_len"])
     (auto split: if_splits)

lemma show_multithread_progress_hangs:
  "progress_now < video_len \<Longrightarrow> video_len \<noteq> 0
     \<Longrightarrow> show_multithread_progress video_len progress_now False = None"
  using show_multithread_progress_Some[of video_len progress_now False]
  by (cases "show_multithread_progress video_len progress_now False") auto

lemma show_multithread_progress_returns:
  "progress_now \<ge> video_len \<Longrightarrow> video_len \<noteq> 0
     \<Longrightarrow> show_multithread_progress video_len progress_now False = Some Returned"
  by (simp add: show_multithread_progress.simps)

lemma partitions_sum:
  assumes "0 < n" "0 \<le> L" "ceil_div L n * (n - 1) < L"
  shows "(\<Sum>(start, end) \<leftarrow> partitions L n. min end (L - 1) - start) = L - 1"
proof -
  define p where "p = ceil_div L n"
  have p0: "0 \<le> p" unfolding p_def using assms by (simp add: ceil_div_nonneg)
  obtain m where m: "nat n = Suc m" using assms(1) by (cases "nat n") auto
  then have nm: "n = int m + 1" by linarith
  have pm: "p * int m < L" using assms(3) nm p_def by simp
  have inner: "min (if int i = n - 1 then L else p * int i + p) (L - 1) - p * int i = p"
    if i: "i < m" for i
  proof -
    from i have "int i + 1 \<le> int m" by simp
    then have "p * (int i + 1) \<le> p * int m" using p0 by (rule mult_left_mono)
    then have "p * int i + p \<le> L - 1" using pm by (simp add: distrib_left)
    with i nm show ?thesis by (simp add: min_def)
  qed
  have firsts: "(\<Sum>i \<leftarrow> [0..<m].
        min (if int i = n - 1 then L else p * int i + p) (L - 1) - p * int i)
      = (\<Sum>i \<leftarrow> [0..<m]. p)"
    by (rule arg_cong[where f = sum_list], rule map_cong) (auto simp: inner)
  have "(\<Sum>(start, end) \<leftarrow> partitions L n. min end (L - 1) - start)
          = (\<Sum>i \<leftarrow> [0..<m].
               min (if int i = n - 1 then L else p * int i + p) (L - 1) - p * int i)
            + (min L (L - 1) - p * int m)"
    unfolding partitions_def p_def[symmetric] Let_def m
    using nm by (simp add: comp_def)
  also have "\<dots> = int m * p + (L - 1 - p * int m)"
    unfolding firsts by (simp add: sum_list_triv min_def)
  also have "\<dots> = L - 1" by (simp add: mult.commute)
  finally show ?thesis .
qed

lemma partitions_valid:
  assumes "0 < n" "0 \<le> L" "ceil_div L n * (n - 1) < L"
  shows "\<forall>(start, end) \<in> set (partitions L n). 0 \<le> start \<and> start \<le> end \<and> start < L"
proof -
  define p where "p = ceil_div L n"
  have p0: "0 \<le> p" unfolding p_def using assms by (simp add: ceil_div_nonneg)
  have pm: "p * (n - 1) < L" using assms(3) p_def by simp
  {
    fix i :: nat assume i: "i < nat n"
    then have "int i \<le> n - 1" by linarith
    then have "p * int i \<le> p * (n - 1)" using p0 by (rule mult_left_mono)
    with pm p0 have "0 \<le> p * int i \<and> p * int i < L \<and> p * int i \<le> p * int i + p"
      by simp
  }
  with pm show ?thesis
    unfolding partitions_def p_def[symmetric] Let_def
    by (auto simp: less_imp_le)
qed

lemma multithread_world:
  assumes "threads opts = Some n" "0 < n"
  shows "snd (download_video opts (rfc_server content) w)
           = run_parts (rfc_server content) (partitions (int (length content)) n)
               ((sent Head w)\<lparr>progress := 0, trace := [],
                   local_file := Some (replicate (length content) (CHR 0x00))\<rparr>)"
proof -
  have h: "head_response (rfc_server content) = Some (length content)"
    by (simp add: rfc_server_def)
  show ?thesis
    using assms(2)
    by (subst download_video.simps) (simp add: assms(1) h Let_def split: option.split)
qed

lemma multithread_progress_general:
  assumes "threads opts = Some n" "0 < n"
    and "ceil_div (int (length content)) n * (n - 1) < int (length content)"
  shows "progress (snd (download_video opts (rfc_server content) w)) = int (length content) - 1"
proof -
  let ?L = "int (length content)"
  let ?w1 = "(sent Head w)\<lparr>progress := 0, trace := [],
                 local_file := Some (replicate (length content) (CHR 0x00))\<rparr>"
  let ?w2 = "run_parts (rfc_server content) (partitions ?L n) ?w1"
  have v: "\<forall>(start, end) \<in> set (partitions ?L n).
      0 \<le> start \<and> start \<le> end \<and> nat start < length content"
    using partitions_valid[OF assms(2) _ assms(3)] by auto
  have "progress ?w2 = progress ?w1
     + (\<Sum>(start, end) \<leftarrow> partitions ?L n. min end (?L - 1) - start)"
    by (rule run_parts_rfc[OF _ v]) simp
  then have pr: "progress ?w2 = ?L - 1"
    using partitions_sum[OF assms(2) _ assms(3)] by simp
  show ?thesis
    unfolding multithread_world[OF assms(1,2)] using pr by simp
qed

text \<open>
  Whether the call returns depends on what the progress thread reads. The choices of
  the scheduler are not changed by the workers. A progress thread that reads nothing
  while the workers run finds the final counter below \<^verbatim>\<open>video_len\<close> and loops forever.
\<close>

lemma write_part_blocks_polls: "polls (write_part_blocks blocks pos f w) = polls w"
  by (induction blocks arbitrary: pos f w) (auto simp: update_multithread_progress_def)

lemma download_video_part_polls: "polls (snd (download_video_part srv start end w)) = polls w"
  by (simp add: download_video_part_def Let_def sent_def write_part_blocks_polls
        update_multithread_progress_def split: option.split)

lemma run_parts_polls: "polls (run_parts srv ranges w) = polls w"
  by (induction ranges arbitrary: w) (auto simp: download_video_part_polls)

lemma multithread_join_hangs:
  assumes "threads opts = Some n" "0 < n"
    and "ceil_div (int (length content)) n * (n - 1) < int (length content)"
    and "polls w = []"
  shows "fst (download_video opts (rfc_server content) w) = Hangs"
proof -
  let ?L = "int (length content)"
  let ?w1 = "(sent Head w)\<lparr>progress := 0, trace := [],
                 local_file := Some (replicate (length content) (CHR 0x00))\<rparr>"
  let ?w2 = "run_parts (rfc_server content) (partitions ?L n) ?w1"
  have pr: "progress ?w2 = ?L - 1"
    using multithread_progress_general[OF assms(1-3), of w]
    unfolding multithread_world[OF assms(1,2)] .
  have "?L \<noteq> 0"
    using assms(2,3) ceil_div_nonneg[of ?L n] by (auto simp: mult_less_0_iff)
  with pr have hang: "show_multithread_progress ?L (progress ?w2) False = None"
    by (simp add: show_multithread_progress_hangs)
  have po: "polls ?w2 = []"
    by (simp add: run_parts_polls sent_def assms(4))
  have h: "head_response (rfc_server content) = Some (length content)"
    by (simp add: rfc_server_def)
  show ?thesis
    using assms(2) hang
    by (subst download_video.simps) (simp add: assms(1) h Let_def po polled_def)
qed

text \<open>
  The trace of a worker that receives a single block: the counter after the block, then
  the counter after the \<open>-1\<close>.
\<close>

lemma iter_content_single:
  assumes "body \<noteq> []" "length body \<le> n"
  shows "iter_content n body = [body]"
proof -
  from assms have "0 < n" by (cases body) auto
  with assms show ?thesis
    by (simp add: iter_content_Cons iter_content_Nil)
qed

lemma download_video_part_rfc_trace:
  assumes "local_file w \<noteq> None" "0 \<le> start" "start \<le> end" "nat start < length content"
    and "min end (int (length content) - 1) - start + 1 \<le> int BLOCK_SIZE"
  shows "trace (snd (download_video_part (rfc_server content) start end w))
           = trace w @ [progress w + (min end (int (length content) - 1) - start + 1),
                        progress w + (min end (int (length content) - 1) - start)]"
proof -
  let ?body = "take (nat end + 1 - nat start) (drop (nat start) content)"
  from assms(1) obtain f where f: "local_file w = Some f" by auto
  have g: "get_response (rfc_server content) (RangeTo start end) = Some ?body"
    using assms by (simp add: rfc_server_def)
  have len: "int (length ?body) = min end (int (length content) - 1) - start + 1"
    using assms by (simp add: min_def) linarith
  have ne: "?body \<noteq> []" using assms by auto
  have le: "length ?body \<le> BLOCK_SIZE" using len assms(5) by linarith
  have fw: "local_file (sent (Get (RangeTo start end)) w) = Some f"
    by (simp add: sent_def f)
  have "download_video_part (rfc_server content) start end w
          = (Returned,
             update_multithread_progress (- 1)
               (write_part_blocks [?body] (nat start) f (sent (Get (RangeTo start end)) w)))"
    using assms(2)
    by (simp only: download_video_part_def Let_def g option.case fw
          iter_content_single[OF ne le]) simp
  then show ?thesis
    using len by (simp add: update_multithread_progress_def sent_def)
qed

lemma trace_1000_4:
  assumes "length content = 1000" "local_file w \<noteq> None" "progress w = 0" "trace w = []"
  shows "trace (run_parts (rfc_server content)
                  [(0, 250), (250, 500), (500, 750), (750, 1000)] w)
           = [251, 250, 501, 500, 751, 750, 1000, 999]"
proof -
  let ?s = "rfc_server content"
  let ?a = "snd (download_video_part ?s 0 250 w)"
  let ?b = "snd (download_video_part ?s 250 500 ?a)"
  let ?c = "snd (download_video_part ?s 500 750 ?b)"
  let ?d = "snd (download_video_part ?s 750 1000 ?c)"
  have fa: "local_file ?a \<noteq> None" and pa: "progress ?a = 250"
    and ta: "trace ?a = [251, 250]"
    using download_video_part_rfc[of w 0 250 content]
      download_video_part_rfc_trace[of w 0 250 content] assms
    by (simp_all add: BLOCK_SIZE_def)
  have fb: "local_file ?b \<noteq> None" and pb: "progress ?b = 500"
    and tb: "trace ?b = [251, 250, 501, 500]"
    using download_video_part_rfc[of ?a 250 500 content, OF fa]
      download_video_part_rfc_trace[of ?a 250 500 content, OF fa] assms(1) pa ta
    by (simp_all add: BLOCK_SIZE_def)
  have fc: "local_file ?c \<noteq> None" and pc: "progress ?c = 750"
    and tc: "trace ?c = [251, 250, 501, 500, 751, 750]"
    using download_video_part_rfc[of ?b 500 750 content, OF fb]
      download_video_part_rfc_trace[of ?b 500 750 content, OF fb] assms(1) pb tb
    by (simp_all add: BLOCK_SIZE_def)
  have td: "trace ?d = [251, 250, 501, 500, 751, 750, 1000, 999]"
    using download_video_part_rfc_trace[of ?c 750 1000 content, OF fc] assms(1) pc tc
    by (simp add: BLOCK_SIZE_def)
  then show ?thesis by simp
qed

lemma multithread_join_outcomes:
  "fst (download_video \<lparr>threads = Some 4, force_high_quality = False\<rparr>
          (rfc_server (replicate 1000 (CHR ''a''))) no_file) = Hangs \<and>
   fst (download_video \<lparr>threads = Some 4, force_high_quality = False\<rparr>
          (rfc_server (replicate 1000 (CHR ''a'')))
          (no_file\<lparr>polls := [False, False, False, False, False, False, True]\<rparr>)) = Returned"
proof -
  let ?o = "\<lparr>threads = Some 4, force_high_quality = False\<rparr>"
  let ?c = "replicate 1000 (CHR ''a'')"
  let ?p = "[False, False, False, False, False, False, True]"
  let ?w1 = "(sent Head (no_file\<lparr>polls := ?p\<rparr>))\<lparr>progress := 0, trace := [],
                 local_file := Some (replicate (length ?c) (CHR 0x00))\<rparr>"
  let ?w2 = "run_parts (rfc_server ?c) (partitions (int (length ?c)) 4) ?w1"
  have t: "threads ?o = Some 4" by simp
  have c: "ceil_div (int (length ?c)) 4 * (4 - 1) < int (length ?c)"
    by (simp add: ceil_div_def)
  have 1: "fst (download_video ?o (rfc_server ?c) no_file) = Hangs"
    by (rule multithread_join_hangs[OF t _ c]) (simp_all add: no_file_def)
  have tr: "trace ?w2 = [251, 250, 501, 500, 751, 750, 1000, 999]"
    using trace_1000_4[of ?c ?w1] by (simp add: partitions_1000_4 sent_def)
  have po: "polls ?w2 = ?p"
    by (simp add: run_parts_polls sent_def)
  have fin: "list_ex (\<lambda>v. int (length ?c) \<le> v) (polled (polls ?w2) (trace ?w2))"
    unfolding tr po by (simp add: polled_def)
  have h: "head_response (rfc_server ?c) = Some (length ?c)"
    by (simp add: rfc_server_def)
  have 2: "fst (download_video ?o (rfc_server ?c) (no_file\<lparr>polls := ?p\<rparr>)) = Returned"
    using fin
    by (subst download_video.simps)
       (simp add: h Let_def show_multithread_progress.simps del: length_replicate)
  from 1 2 show ?thesis by blast
qed

text \<open>
  Claim C6 fails by one: for a content of 1000 bytes and 4 threads the ranges are
  \<open>[0,250), [250,500), [500,750), [750,1000)\<close>; the first three workers receive 251
  bytes each (the range header is inclusive) and the last one 250 (bytes 750 to 999),
  and each then reports \<open>-1\<close>. With the workers run one after the other the counter takes
  the values 251, 250, 501, 500, 751, 750, 1000, 999: after all workers have completed
  it is 999, not 1000, whatever the progress thread reads meanwhile. Lemma
  \<open>multithread_progress_general\<close> shows the final value \<open>length - 1\<close> for every content and
  thread count whose ranges all start inside the content.
\<close>

theorem multithread_progress_off_by_one:
  "partitions 1000 4 = [(0, 250), (250, 500), (500, 750), (750, 1000)] \<and>
   trace (snd (download_video \<lparr>threads = Some 4, force_high_quality = False\<rparr>
                 (rfc_server (replicate 1000 (CHR ''a''))) (no_file\<lparr>polls := choices\<rparr>)))
     = [251, 250, 501, 500, 751, 750, 1000, 999] \<and>
   progress (snd (download_video \<lparr>threads = Some 4, force_high_quality = False\<rparr>
                    (rfc_server (replicate 1000 (CHR ''a''))) (no_file\<lparr>polls := choices\<rparr>)))
     = 999"
proof -
  let ?o = "\<lparr>threads = Some 4, force_high_quality = False\<rparr>"
  let ?c = "replicate 1000 (CHR ''a'')"
  let ?w = "no_file\<lparr>polls := choices\<rparr>"
  let ?w1 = "(sent Head ?w)\<lparr>progress := 0, trace := [],
                 local_file := Some (replicate (length ?c) (CHR 0x00))\<rparr>"
  have t: "threads ?o = Some 4" by simp
  have c: "ceil_div (int (length ?c)) 4 * (4 - 1) < int (length ?c)"
    by (simp add: ceil_div_def)
  have 1: "progress (snd (download_video ?o (rfc_server ?c) ?w)) = 999"
    using multithread_progress_general[OF t _ c, of ?w] by simp
  have "trace (run_parts (rfc_server ?c) (partitions (int (length ?c)) 4) ?w1)
          = [251, 250, 501, 500, 751, 750, 1000, 999]"
    using trace_1000_4[of ?c ?w1] by (simp add: partitions_1000_4 sent_def)
  then have 2: "trace (snd (download_video ?o (rfc_server ?c) ?w))
          = [251, 250, 501, 500, 751, 750, 1000, 999]"
    using multithread_world[OF t, of ?c ?w] by simp
  from 1 2 partitions_1000_4 show ?thesis by blast
qed

section \<open>Session renewal: the interval of the timer\<close>

text \<open>
  Claim C7, as amended. After every successful renewal the next timer fires exactly
  \<open>DMC_HEARTBEAT_INTERVAL_S\<close> = 15 seconds later, whatever lifetime the session
  advertises; it fires strictly before the advertised lifetime has elapsed since that
  renewal exactly when the lifetime is more than 15000 ms.
\<close>

theorem heartbeat_interval_fixed:
  "\<forall>timer \<in> set (heartbeat_chain now response replies).
      fires_at timer = renewed_at timer + 15000 \<and>
      (fires_at timer - renewed_at timer < heartbeat_lifetime (timer_response timer)
         \<longleftrightarrow> 15000 < heartbeat_lifetime (timer_response timer))"
proof (induction replies arbitrary: now response)
  case Nil
  then show ?case by simp
next
  case (Cons reply replies)
  show ?case
  proof (cases "reply_session reply")
    case None
    then show ?thesis by (simp add: perform_heartbeat_def)
  next
    case (Some response')
    with Cons.IH show ?thesis
      by (simp add: perform_heartbeat_def DMC_HEARTBEAT_INTERVAL_S_def)
  qed
qed

text \<open>C7 as amended, on two renewals of a session with a lifetime of 120 seconds.\<close>

theorem heartbeat_interval_fixed_witness:
  "heartbeat_chain 0 \<lparr>heartbeat_lifetime = 120000\<rparr>
      [\<lparr>latency_ms = 200, reply_session = Some \<lparr>heartbeat_lifetime = 120000\<rparr>\<rparr>,
       \<lparr>latency_ms = 300, reply_session = Some \<lparr>heartbeat_lifetime = 120000\<rparr>\<rparr>]
     = [\<lparr>renewed_at = 200, fires_at = 15200,
          timer_response = \<lparr>heartbeat_lifetime = 120000\<rparr>\<rparr>,
        \<lparr>renewed_at = 15500, fires_at = 30500,
          timer_response = \<lparr>heartbeat_lifetime = 120000\<rparr>\<rparr>] \<and>
   fires_at \<lparr>renewed_at = 15500, fires_at = 30500,
              timer_response = \<lparr>heartbeat_lifetime = 120000\<rparr>\<rparr>
     - renewed_at \<lparr>renewed_at = 15500, fires_at = 30500,
                    timer_response = \<lparr>heartbeat_lifetime = 120000\<rparr>\<rparr>
     < heartbeat_lifetime \<lparr>heartbeat_lifetime = 120000\<rparr>"
  using heartbeat_interval_fixed [of 0 "\<lparr>heartbeat_lifetime = 120000\<rparr>"
      "[\<lparr>latency_ms = 200, reply_session = Some \<lparr>heartbeat_lifetime = 120000\<rparr>\<rparr>,
        \<lparr>latency_ms = 300, reply_session = Some \<lparr>heartbeat_lifetime = 120000\<rparr>\<rparr>]"]
  by (simp add: perform_heartbeat_def DMC_HEARTBEAT_INTERVAL_S_def)

text \<open>
  C7 as the spec states it fails for a session that advertises a lifetime of 10
  seconds: the timer fires 15000 ms after the renewal, not before 10000 ms.
\<close>

theorem heartbeat_interval_counterexample:
  "perform_heartbeat 0 \<lparr>heartbeat_lifetime = 10000\<rparr>
      \<lparr>latency_ms = 0, reply_session = Some \<lparr>heartbeat_lifetime = 10000\<rparr>\<rparr>
     = Inr \<lparr>renewed_at = 0, fires_at = 15000,
            timer_response = \<lparr>heartbeat_lifetime = 10000\<rparr>\<rparr> \<and>
   \<not> (fires_at \<lparr>renewed_at = 0, fires_at = 15000,
                   timer_response = \<lparr>heartbeat_lifetime = 10000\<rparr>\<rparr>
        - renewed_at \<lparr>renewed_at = 0, fires_at = 15000,
                       timer_response = \<lparr>heartbeat_lifetime = 10000\<rparr>\<rparr>
        < heartbeat_lifetime \<lparr>heartbeat_lifetime = 10000\<rparr>)"
  by (simp add: perform_heartbeat_def DMC_HEARTBEAT_INTERVAL_S_def)

section \<open>The progress counter under interleaving: a lost update\<close>

text \<open>
  Claim C10 fails. When two workers alternate, each acquires a lock of its own (locks
  0 and 1 are held at the same time), both read the counter at 0, and after both have
  stored and released the counter is 1024: one report of 1024 bytes is lost. Run one
  after the other, the same two calls leave the counter at 2048.
\<close>

theorem progress_lock_not_shared:
  "run [0, 1, 0, 1, 0, 1] two_workers
     = Some ([\<lparr>at = AtStore, lock = Some 0, bytes_len = 1024, loaded = 0\<rparr>,
              \<lparr>at = AtStore, lock = Some 1, bytes_len = 1024, loaded = 0\<rparr>],
             \<lparr>progress_global = 0, held = {0, 1}, created = 2\<rparr>) \<and>
   run [0, 1, 0, 1, 0, 1, 0, 1, 0, 1] two_workers
     = Some ([\<lparr>at = AtEnd, lock = Some 0, bytes_len = 1024, loaded = 0\<rparr>,
              \<lparr>at = AtEnd, lock = Some 1, bytes_len = 1024, loaded = 0\<rparr>],
             \<lparr>progress_global = 1024, held = {}, created = 2\<rparr>) \<and>
   run [0, 0, 0, 0, 0, 1, 1, 1, 1, 1] two_workers
     = Some ([\<lparr>at = AtEnd, lock = Some 0, bytes_len = 1024, loaded = 0\<rparr>,
              \<lparr>at = AtEnd, lock = Some 1, bytes_len = 1024, loaded = 1024\<rparr>],
             \<lparr>progress_global = 2048, held = {}, created = 2\<rparr>)"
  by (simp add: two_workers_def new_call_def step_def insert_commute)

section \<open>Master playlist: the first variant of maximal bandwidth\<close>

text \<open>
  The loop either keeps its accumulator (no match beats it) or ends on the first match of
  maximal bandwidth, which beats the accumulator.
\<close>

lemma best_stream_loop_inv:
  "(best_stream_loop ms (b, s) = (b, s) \<and> (\<forall>m\<in>set ms. int (fst m) \<le> b)) \<or>
   (\<exists>i<length ms. best_stream_loop ms (b, s) = (int (fst (ms ! i)), Some (snd (ms ! i))) \<and>
       b < int (fst (ms ! i)) \<and>
       (\<forall>j<length ms. fst (ms ! j) \<le> fst (ms ! i)) \<and>
       (\<forall>j<i. fst (ms ! j) < fst (ms ! i)))"
proof (induction ms arbitrary: b s)
  case Nil
  then show ?case by simp
next
  case (Cons m ms)
  show ?case
  proof (cases "int (fst m) > b")
    case True
    from Cons.IH[of "int (fst m)" "Some (snd m)"]
    show ?thesis
    proof
      assume a: "best_stream_loop ms (int (fst m), Some (snd m)) = (int (fst m), Some (snd m)) \<and> (\<forall>m'\<in>set ms. int (fst m') \<le> int (fst m))"
      have "\<forall>j<length (m # ms). fst ((m # ms) ! j) \<le> fst m"
        using a by (auto simp: nth_Cons split: nat.splits)
      with a True show ?thesis
        by (intro disjI2 exI[of _ 0]) (simp add: Let_def)
    next
      assume "\<exists>i<length ms. best_stream_loop ms (int (fst m), Some (snd m)) = (int (fst (ms ! i)), Some (snd (ms ! i))) \<and>
       int (fst m) < int (fst (ms ! i)) \<and>
       (\<forall>j<length ms. fst (ms ! j) \<le> fst (ms ! i)) \<and>
       (\<forall>j<i. fst (ms ! j) < fst (ms ! i))"
      then obtain i where i: "i < length ms"
        "best_stream_loop ms (int (fst m), Some (snd m)) = (int (fst (ms ! i)), Some (snd (ms ! i)))"
        "int (fst m) < int (fst (ms ! i))"
        "\<forall>j<length ms. fst (ms ! j) \<le> fst (ms ! i)"
        "\<forall>j<i. fst (ms ! j) < fst (ms ! i)" by blast
      have 1: "\<forall>j<length (m # ms). fst ((m # ms) ! j) \<le> fst ((m # ms) ! Suc i)"
        using i by (auto simp: nth_Cons split: nat.splits)
      have 2: "\<forall>j<Suc i. fst ((m # ms) ! j) < fst ((m # ms) ! Suc i)"
        using i by (auto simp: nth_Cons split: nat.splits)
      from i True 1 2 show ?thesis
        by (intro disjI2 exI[of _ "Suc i"]) (simp add: Let_def)
    qed
  next
    case False
    from Cons.IH[of b s]
    show ?thesis
    proof
      assume a: "best_stream_loop ms (b, s) = (b, s) \<and> (\<forall>m\<in>set ms. int (fst m) \<le> b)"
      with False show ?thesis by (intro disjI1) (simp add: Let_def)
    next
      assume "\<exists>i<length ms. best_stream_loop ms (b, s) = (int (fst (ms ! i)), Some (snd (ms ! i))) \<and>
       b < int (fst (ms ! i)) \<and>
       (\<forall>j<length ms. fst (ms ! j) \<le> fst (ms ! i)) \<and>
       (\<forall>j<i. fst (ms ! j) < fst (ms ! i))"
      then obtain i where i: "i < length ms"
        "best_stream_loop ms (b, s) = (int (fst (ms ! i)), Some (snd (ms ! i)))"
        "b < int (fst (ms ! i))"
        "\<forall>j<length ms. fst (ms ! j) \<le> fst (ms ! i)"
        "\<forall>j<i. fst (ms ! j) < fst (ms ! i)" by blast
      have m: "fst m < fst (ms ! i)" using False i(3) by linarith
      have 1: "\<forall>j<length (m # ms). fst ((m # ms) ! j) \<le> fst ((m # ms) ! Suc i)"
        using i m by (auto simp: nth_Cons split: nat.splits)
      have 2: "\<forall>j<Suc i. fst ((m # ms) ! j) < fst ((m # ms) ! Suc i)"
        using i m by (auto simp: nth_Cons split: nat.splits)
      from i False 1 2 show ?thesis
        by (intro disjI2 exI[of _ "Suc i"]) (simp add: Let_def)
    qed
  qed
qed

text \<open>
  Claim C9. For every non-empty list of parsed variants (bandwidth, URI), the function
  returns the URI of a variant whose bandwidth is the maximum of the list, and every
  variant before it in input order has a strictly smaller bandwidth: among several
  variants of maximal bandwidth the first one is returned. The entries
  \<open>(500, a.m3u8), (1500, b.m3u8), (1500, c.m3u8)\<close> give \<open>b.m3u8\<close>.
\<close>

theorem playlist_first_max:
  "(\<forall>matches. matches \<noteq> [] \<longrightarrow>
      (\<exists>i<length matches.
          get_playlist_from_m3u8 matches = Inr (Some (snd (matches ! i))) \<and>
          (\<forall>j<length matches. fst (matches ! j) \<le> fst (matches ! i)) \<and>
          (\<forall>j<i. fst (matches ! j) < fst (matches ! i)))) \<and>
   get_playlist_from_m3u8 [(500, ''a.m3u8''), (1500, ''b.m3u8''), (1500, ''c.m3u8'')]
     = Inr (Some ''b.m3u8'')"
proof (intro conjI allI impI)
  fix matches :: "(nat \<times> string) list"
  assume ne: "matches \<noteq> []"
  from best_stream_loop_inv[of matches "- 1" None]
  show "\<exists>i<length matches.
          get_playlist_from_m3u8 matches = Inr (Some (snd (matches ! i))) \<and>
          (\<forall>j<length matches. fst (matches ! j) \<le> fst (matches ! i)) \<and>
          (\<forall>j<i. fst (matches ! j) < fst (matches ! i))"
  proof
    assume "best_stream_loop matches (- 1, None) = (- 1, None) \<and> (\<forall>m\<in>set matches. int (fst m) \<le> - 1)"
    then have "int (fst (hd matches)) \<le> - 1" using ne hd_in_set by blast
    then show ?thesis by simp
  next
    assume "\<exists>i<length matches. best_stream_loop matches (- 1, None) = (int (fst (matches ! i)), Some (snd (matches ! i))) \<and>
       - 1 < int (fst (matches ! i)) \<and>
       (\<forall>j<length matches. fst (matches ! j) \<le> fst (matches ! i)) \<and>
       (\<forall>j<i. fst (matches ! j) < fst (matches ! i))"
    then show ?thesis using ne by (auto simp: get_playlist_from_m3u8_def)
  qed
next
  show "get_playlist_from_m3u8 [(500, ''a.m3u8''), (1500, ''b.m3u8''), (1500, ''c.m3u8'')]
     = Inr (Some ''b.m3u8'')"
    by (simp add: get_playlist_from_m3u8_def)
qed

text \<open>The general statement of C9 used at a four-element list with a tie.\<close>

theorem playlist_first_max_witness:
  "\<exists>i<length [(7::nat, ''x''), (9, ''y''), (9, ''z''), (3, ''w'')].
      get_playlist_from_m3u8 [(7::nat, ''x''), (9, ''y''), (9, ''z''), (3, ''w'')]
        = Inr (Some (snd ([(7::nat, ''x''), (9, ''y''), (9, ''z''), (3, ''w'')] ! i))) \<and>
      (\<forall>j<length [(7::nat, ''x''), (9, ''y''), (9, ''z''), (3, ''w'')].
          fst ([(7::nat, ''x''), (9, ''y''), (9, ''z''), (3, ''w'')] ! j)
            \<le> fst ([(7::nat, ''x''), (9, ''y''), (9, ''z''), (3, ''w'')] ! i)) \<and>
      (\<forall>j<i. fst ([(7::nat, ''x''), (9, ''y''), (9, ''z''), (3, ''w'')] ! j)
            < fst ([(7::nat, ''x''), (9, ''y''), (9, ''z''), (3, ''w'')] ! i))"
  by (rule playlist_first_max [THEN conjunct1, rule_format]) simp

end
